theory Spec2Isabelle
  imports Main "HOL-Library.Word"
begin

unbundle bit_operations_syntax

section \<open>The handshake messages of \<open>pkg/proto/handshake.go\<close>\<close>

subsection \<open>Go values\<close>

text \<open>
  A Go \<open>byte\<close> is an 8-bit word, a \<open>uint16\<close> a 16-bit word, and their arithmetic
  wraps. A Go \<open>string\<close> is the sequence of its bytes (\<open>[]byte(s)\<close> and \<open>string(b)\<close>
  copy the bytes as they are), so strings are byte lists here. Go's \<open>int\<close> is modelled by
  \<open>int\<close>: the source only compares such values, adds lengths below \<open>2 ^ 18\<close> and
  masks one with \<open>0xFF\<close>.
\<close>

type_synonym byte = "8 word"
type_synonym bytes = "byte list"

text \<open>
  Modelled from the spec: the error values \<open>ErrInvalidPacket\<close>, \<open>ErrContentTooLong\<close>
  and \<open>ErrBufferTooShort\<close> are declared in a file of the package that is not among the
  sources; they are the three error kinds \<open>InvalidPacket\<close>, \<open>ContentTooLong\<close> and
  \<open>BufferTooShort\<close> of the spec, and only their being distinct matters here.
  \<open>RuntimePanic\<close> is not a returned error: it stands for a Go run-time panic (a slice
  expression or an index out of range), which unwinds the call.
\<close>

datatype error = ErrInvalidPacket | ErrContentTooLong | ErrBufferTooShort | RuntimePanic

text \<open>
  A slice is a window on a backing array: \<open>elems\<close> are the \<open>len\<close> elements it shows,
  \<open>spare\<close> the elements of the backing array behind them, up to the capacity. A slice
  expression \<open>s[lo:hi]\<close> on a slice is in range when \<open>0 \<le> lo \<le> hi \<le> cap(s)\<close> and
  panics otherwise.
\<close>

record goslice =
  elems :: bytes
  spare :: bytes

definition len :: "goslice \<Rightarrow> int" where
  "len s = int (length (elems s))"

definition cap :: "goslice \<Rightarrow> int" where
  "cap s = int (length (elems s) + length (spare s))"

definition slice_expr :: "goslice \<Rightarrow> int \<Rightarrow> int \<Rightarrow> goslice option" where
  "slice_expr s lo hi =
     (if 0 \<le> lo \<and> lo \<le> hi \<and> hi \<le> cap s
      then Some \<lparr>elems = take (nat (hi - lo)) (drop (nat lo) (elems s @ spare s)),
                 spare = drop (nat hi) (elems s @ spare s)\<rparr>
      else None)"

text \<open>
  A slice expression \<open>a[lo:hi]\<close> on an array is in range when
  \<open>0 \<le> lo \<le> hi \<le> len(a)\<close>.
\<close>

definition array_slice :: "bytes \<Rightarrow> int \<Rightarrow> int \<Rightarrow> bytes option" where
  "array_slice a lo hi =
     (if 0 \<le> lo \<and> lo \<le> hi \<and> hi \<le> int (length a)
      then Some (take (nat (hi - lo)) (drop (nat lo) a))
      else None)"

text \<open>
  \<open>copy(a[:n], src)\<close> for an array \<open>a\<close>: the first \<open>min n (len src)\<close> elements of
  \<open>a\<close> are overwritten, the others stay. \<open>None\<close> when \<open>a[:n]\<close> is out of range.
\<close>

definition copy_prefix :: "bytes \<Rightarrow> int \<Rightarrow> bytes \<Rightarrow> bytes option" where
  "copy_prefix a n src =
     (case array_slice a 0 n of
        None \<Rightarrow> None
      | Some dst \<Rightarrow>
          let k = min (length dst) (length src)
          in Some (take k src @ drop k a))"

text \<open>\<open>bytes.Compare\<close>: the lexicographic order of two byte strings, as -1, 0 or 1.\<close>

fun bytes_Compare :: "bytes \<Rightarrow> bytes \<Rightarrow> int" where
  "bytes_Compare [] [] = 0"
| "bytes_Compare [] (y # ys) = -1"
| "bytes_Compare (x # xs) [] = 1"
| "bytes_Compare (x # xs) (y # ys) =
     (if x < y then -1 else if y < x then 1 else bytes_Compare xs ys)"

text \<open>
  \<open>binary.BigEndian.Uint16\<close> and \<open>PutUint16\<close> of \<open>encoding/binary\<close>; both index
  \<open>b[1]\<close> first and panic on a shorter slice.
\<close>

definition BigEndian_Uint16 :: "bytes \<Rightarrow> 16 word option" where
  "BigEndian_Uint16 b =
     (if length b < 2 then None
      else Some (ucast (b ! 1) OR push_bit 8 (ucast (b ! 0))))"

definition BigEndian_PutUint16 :: "bytes \<Rightarrow> 16 word \<Rightarrow> bytes option" where
  "BigEndian_PutUint16 b v =
     (if length b < 2 then None
      else Some ((b[0 := ucast (drop_bit 8 v)])[1 := ucast v]))"

subsection \<open>SHA-512 and HMAC of the standard library\<close>

text \<open>
  \<open>crypto/sha512\<close> and \<open>crypto/hmac\<close> belong to Go's standard library, not to this
  repository. \<open>sha512\<close> is the hash function of FIPS 180-4 that the library computes;
  \<open>hmac_New\<close>, \<open>hmac_Write\<close> and \<open>hmac_Sum\<close> follow the library's \<open>hmac.New\<close>,
  \<open>Write\<close> and \<open>Sum\<close>. A running hash is modelled by the bytes written to it so far:
  its \<open>Write\<close> appends and its \<open>Sum(in)\<close> appends the digest of them to \<open>in\<close>.
\<close>

type_synonym u64 = "64 word"
type_synonym hash512 = "u64 \<times> u64 \<times> u64 \<times> u64 \<times> u64 \<times> u64 \<times> u64 \<times> u64"

definition sha512_K :: "u64 list" where
  "sha512_K =
    [0x428A2F98D728AE22, 0x7137449123EF65CD, 0xB5C0FBCFEC4D3B2F, 0xE9B5DBA58189DBBC,
     0x3956C25BF348B538, 0x59F111F1B605D019, 0x923F82A4AF194F9B, 0xAB1C5ED5DA6D8118,
     0xD807AA98A3030242, 0x12835B0145706FBE, 0x243185BE4EE4B28C, 0x550C7DC3D5FFB4E2,
     0x72BE5D74F27B896F, 0x80DEB1FE3B1696B1, 0x9BDC06A725C71235, 0xC19BF174CF692694,
     0xE49B69C19EF14AD2, 0xEFBE4786384F25E3, 0x0FC19DC68B8CD5B5, 0x240CA1CC77AC9C65,
     0x2DE92C6F592B0275, 0x4A7484AA6EA6E483, 0x5CB0A9DCBD41FBD4, 0x76F988DA831153B5,
     0x983E5152EE66DFAB, 0xA831C66D2DB43210, 0xB00327C898FB213F, 0xBF597FC7BEEF0EE4,
     0xC6E00BF33DA88FC2, 0xD5A79147930AA725, 0x06CA6351E003826F, 0x142929670A0E6E70,
     0x27B70A8546D22FFC, 0x2E1B21385C26C926, 0x4D2C6DFC5AC42AED, 0x53380D139D95B3DF,
     0x650A73548BAF63DE, 0x766A0ABB3C77B2A8, 0x81C2C92E47EDAEE6, 0x92722C851482353B,
     0xA2BFE8A14CF10364, 0xA81A664BBC423001, 0xC24B8B70D0F89791, 0xC76C51A30654BE30,
     0xD192E819D6EF5218, 0xD69906245565A910, 0xF40E35855771202A, 0x106AA07032BBD1B8,
     0x19A4C116B8D2D0C8, 0x1E376C085141AB53, 0x2748774CDF8EEB99, 0x34B0BCB5E19B48A8,
     0x391C0CB3C5C95A63, 0x4ED8AA4AE3418ACB, 0x5B9CCA4F7763E373, 0x682E6FF3D6B2B8A3,
     0x748F82EE5DEFB2FC, 0x78A5636F43172F60, 0x84C87814A1F0AB72, 0x8CC702081A6439EC,
     0x90BEFFFA23631E28, 0xA4506CEBDE82BDE9, 0xBEF9A3F7B2C67915, 0xC67178F2E372532B,
     0xCA273ECEEA26619C, 0xD186B8C721C0C207, 0xEADA7DD6CDE0EB1E, 0xF57D4F7FEE6ED178,
     0x06F067AA72176FBA, 0x0A637DC5A2C898A6, 0x113F9804BEF90DAE, 0x1B710B35131C471B,
     0x28DB77F523047D84, 0x32CAAB7B40C72493, 0x3C9EBE0A15C9BEBC, 0x431D67C49C100D4C,
     0x4CC5D4BECB3E42B6, 0x597F299CFC657E2A, 0x5FCB6FAB3AD6FAEC, 0x6C44198C4A475817]"

definition sha512_init :: hash512 where
  "sha512_init =
    (0x6A09E667F3BCC908, 0xBB67AE8584CAA73B, 0x3C6EF372FE94F82B, 0xA54FF53A5F1D36F1,
     0x510E527FADE682D1, 0x9B05688C2B3E6C1F, 0x1F83D9ABFB41BD6B, 0x5BE0CD19137E2179)"

definition rotr64 :: "nat \<Rightarrow> u64 \<Rightarrow> u64" where
  "rotr64 n x = drop_bit n x OR push_bit (64 - n) x"

definition Ch :: "u64 \<Rightarrow> u64 \<Rightarrow> u64 \<Rightarrow> u64" where
  "Ch x y z = (x AND y) XOR (NOT x AND z)"

definition Maj :: "u64 \<Rightarrow> u64 \<Rightarrow> u64 \<Rightarrow> u64" where
  "Maj x y z = (x AND y) XOR (x AND z) XOR (y AND z)"

definition Sum0 :: "u64 \<Rightarrow> u64" where
  "Sum0 x = rotr64 28 x XOR rotr64 34 x XOR rotr64 39 x"

definition Sum1 :: "u64 \<Rightarrow> u64" where
  "Sum1 x = rotr64 14 x XOR rotr64 18 x XOR rotr64 41 x"

definition sig0 :: "u64 \<Rightarrow> u64" where
  "sig0 x = rotr64 1 x XOR rotr64 8 x XOR drop_bit 7 x"

definition sig1 :: "u64 \<Rightarrow> u64" where
  "sig1 x = rotr64 19 x XOR rotr64 61 x XOR drop_bit 6 x"

text \<open>Big-endian words: 8 bytes to a 64-bit word and back.\<close>

definition be_word64 :: "bytes \<Rightarrow> u64" where
  "be_word64 bs = foldl (\<lambda>acc b. push_bit 8 acc OR ucast b) 0 bs"

definition be_bytes64 :: "u64 \<Rightarrow> bytes" where
  "be_bytes64 w = map (\<lambda>i. ucast (drop_bit (8 * (7 - i)) w)) [0 ..< 8]"

definition be_bytes128 :: "128 word \<Rightarrow> bytes" where
  "be_bytes128 w = map (\<lambda>i. ucast (drop_bit (8 * (15 - i)) w)) [0 ..< 16]"

text \<open>The message schedule: 16 words of the block, extended to 80.\<close>

fun schedule_ext :: "nat \<Rightarrow> u64 list \<Rightarrow> u64 list" where
  "schedule_ext 0 w = w"
| "schedule_ext (Suc n) w =
     schedule_ext n
       (w @ [sig1 (w ! (length w - 2)) + w ! (length w - 7)
             + sig0 (w ! (length w - 15)) + w ! (length w - 16)])"

definition schedule :: "bytes \<Rightarrow> u64 list" where
  "schedule block =
     schedule_ext 64 (map (\<lambda>i. be_word64 (take 8 (drop (8 * i) block))) [0 ..< 16])"

fun sha512_round :: "hash512 \<Rightarrow> u64 \<times> u64 \<Rightarrow> hash512" where
  "sha512_round (a, b, c, d, e, f, g, h) (k, w) =
     (let t1 = h + Sum1 e + Ch e f g + k + w;
          t2 = Sum0 a + Maj a b c
      in (t1 + t2, a, b, c, d + t1, e, f, g))"

fun hash_add :: "hash512 \<Rightarrow> hash512 \<Rightarrow> hash512" where
  "hash_add (a, b, c, d, e, f, g, h) (a', b', c', d', e', f', g', h') =
     (a + a', b + b', c + c', d + d', e + e', f + f', g + g', h + h')"

definition sha512_block :: "hash512 \<Rightarrow> bytes \<Rightarrow> hash512" where
  "sha512_block H block = hash_add H (foldl sha512_round H (zip sha512_K (schedule block)))"

text \<open>
  Padding: the byte \<open>0x80\<close>, zero bytes up to 112 modulo 128, and the length of the
  message in bits as a 128-bit big-endian number.
\<close>

definition sha512_pad :: "bytes \<Rightarrow> bytes" where
  "sha512_pad m =
     m @ [0x80] @ replicate ((128 - (length m + 17) mod 128) mod 128) 0
       @ be_bytes128 (of_nat (8 * length m))"

function sha512_blocks :: "hash512 \<Rightarrow> bytes \<Rightarrow> hash512" where
  "sha512_blocks H p =
     (if length p < 128 then H
      else sha512_blocks (sha512_block H (take 128 p)) (drop 128 p))"
  by pat_completeness auto
termination
  by (relation "measure (\<lambda>(H, p). length p)") auto

fun hash_bytes :: "hash512 \<Rightarrow> bytes" where
  "hash_bytes (a, b, c, d, e, f, g, h) =
     be_bytes64 a @ be_bytes64 b @ be_bytes64 c @ be_bytes64 d
       @ be_bytes64 e @ be_bytes64 f @ be_bytes64 g @ be_bytes64 h"

definition sha512 :: "bytes \<Rightarrow> bytes" where
  "sha512 m = hash_bytes (sha512_blocks sha512_init (sha512_pad m))"

text \<open>
  \<open>hmac.New(sha512.New, key)\<close>: a key longer than the block size of 128 bytes is
  hashed first; \<open>ipad\<close> and \<open>opad\<close> are the key, filled with zeros to 128 bytes, with
  every byte xor-ed with \<open>0x36\<close> and \<open>0x5c\<close>; \<open>ipad\<close> is written to the inner hash.
\<close>

record hmac =
  opad :: bytes
  ipad :: bytes
  inner :: bytes

definition hmac_New :: "bytes \<Rightarrow> hmac" where
  "hmac_New key0 =
     (let blocksize = 128;
          key = (if length key0 > blocksize then sha512 key0 else key0);
          padded = key @ replicate (blocksize - length key) 0;
          ip = map (\<lambda>b. b XOR 0x36) padded;
          op = map (\<lambda>b. b XOR 0x5c) padded
      in \<lparr>opad = op, ipad = ip, inner = ip\<rparr>)"

definition hmac_Write :: "hmac \<Rightarrow> bytes \<Rightarrow> hmac" where
  "hmac_Write h p = h\<lparr>inner := inner h @ p\<rparr>"

definition hmac_Sum :: "hmac \<Rightarrow> bytes \<Rightarrow> bytes" where
  "hmac_Sum h inp =
     (let in1 = inp @ sha512 (inner h);
          outer = opad h @ drop (length inp) in1
      in take (length inp) in1 @ sha512 outer)"

subsection \<open>Hello\<close>

definition helloMagic :: bytes where
  "helloMagic = [of_char CHR ''u'', of_char CHR ''t'', of_char CHR ''t'', 0, 0, 0]"

text \<open>\<open>Challenge\<close> is a \<open>[16]byte\<close>: a byte list of length 16.\<close>

record Hello =
  Challenge :: bytes

definition Hello_wf :: "Hello \<Rightarrow> bool" where
  "Hello_wf h = (length (Challenge h) = 16)"

definition Hello_Len :: "Hello \<Rightarrow> int" where
  "Hello_Len h = int (length helloMagic) + int (length (Challenge h))"

text \<open>
  \<open>Encode\<close> cuts the destination to length 0 and appends; the elements of the slice
  it returns are what is modelled (whether \<open>append\<close> writes in place or allocates does
  not change them).
\<close>

definition Hello_Encode :: "Hello \<Rightarrow> goslice \<Rightarrow> error + bytes" where
  "Hello_Encode h buf =
     (case slice_expr buf 0 0 of
        None \<Rightarrow> Inl RuntimePanic
      | Some b0 \<Rightarrow>
          (case array_slice (Challenge h) 0 (int (length (Challenge h))) of
             None \<Rightarrow> Inl RuntimePanic
           | Some ch \<Rightarrow> Inr ((elems b0 @ helloMagic) @ ch)))"

definition Hello_Decode :: "Hello \<Rightarrow> goslice \<Rightarrow> Hello \<times> error option" where
  "Hello_Decode h buf =
     (if len buf < Hello_Len h then (h, Some ErrInvalidPacket)
      else
        (case slice_expr buf 0 (int (length helloMagic)) of
           None \<Rightarrow> (h, Some RuntimePanic)
         | Some m \<Rightarrow>
             if bytes_Compare helloMagic (elems m) \<noteq> 0 then (h, Some ErrInvalidPacket)
             else
               (case array_slice (Challenge h) 0 16 of
                  None \<Rightarrow> (h, Some RuntimePanic)
                | Some dst \<Rightarrow>
                    (case slice_expr buf (int (length helloMagic)) (16 + int (length helloMagic)) of
                       None \<Rightarrow> (h, Some RuntimePanic)
                     | Some src \<Rightarrow>
                         (case copy_prefix (Challenge h) 16 (elems src) of
                            None \<Rightarrow> (h, Some RuntimePanic)
                          | Some ch \<Rightarrow> (h\<lparr>Challenge := ch\<rparr>, None))))))"

subsection \<open>Connect\<close>

record Connect =
  ACLKey :: bytes
  Signature :: bytes

definition Connect_Len :: "Connect \<Rightarrow> int" where
  "Connect_Len c = int (length (ACLKey c)) + int (length (Signature c))"

text \<open>\<open>[]byte("cha")\<close> and \<open>[]byte("acl#" + c.ACLKey)\<close>: the bytes of the literals.\<close>

definition str_bytes :: "string \<Rightarrow> bytes" where
  "str_bytes s = map of_char s"

definition Connect_HMAC :: "Connect \<Rightarrow> bytes \<Rightarrow> bytes \<Rightarrow> bytes" where
  "Connect_HMAC c challenge psk =
     (let h = hmac_New psk;
          h = hmac_Write h (str_bytes ''cha'');
          h = hmac_Write h challenge;
          h = hmac_Write h (str_bytes ''acl#'' @ ACLKey c)
      in hmac_Sum h [])"

definition Sign :: "Connect \<Rightarrow> bytes \<Rightarrow> bytes \<Rightarrow> Connect" where
  "Sign c challenge psk = c\<lparr>Signature := Connect_HMAC c challenge psk\<rparr>"

definition Verify :: "Connect \<Rightarrow> bytes \<Rightarrow> bytes \<Rightarrow> bool" where
  "Verify c challenge psk =
     (bytes_Compare (Signature c) (Connect_HMAC c challenge psk) = 0)"

definition Connect_Encode :: "Connect \<Rightarrow> goslice \<Rightarrow> error + bytes" where
  "Connect_Encode c buf =
     (let lengthBin = [0, 0] in
      case slice_expr buf 0 0 of
        None \<Rightarrow> Inl RuntimePanic
      | Some b0 \<Rightarrow>
          let binACLKey = ACLKey c in
          if int (length binACLKey) > 0xFFFF \<or> int (length (Signature c)) > 0xFFFF
          then Inl ErrContentTooLong
          else
            (case BigEndian_PutUint16 lengthBin (of_nat (length binACLKey)) of
               None \<Rightarrow> Inl RuntimePanic
             | Some lengthBin1 \<Rightarrow>
                 let b1 = elems b0 @ lengthBin1 in
                 (case BigEndian_PutUint16 lengthBin1 (of_nat (length (Signature c))) of
                    None \<Rightarrow> Inl RuntimePanic
                  | Some lengthBin2 \<Rightarrow>
                      let b2 = b1 @ lengthBin2;
                          b3 = b2 @ binACLKey;
                          b4 = b3 @ Signature c
                      in Inr b4)))"

text \<open>
  In \<open>Decode\<close> the test of the lengths converts to \<open>int\<close> first, while the bounds
  \<open>4+msgLen\<close> and \<open>4+msgLen+signLen\<close> of the two slice expressions are sums of
  \<open>uint16\<close> values and wrap at \<open>2 ^ 16\<close>. \<open>ACLKey\<close> is assigned before the second
  slice expression is evaluated.
\<close>

definition Connect_Decode :: "Connect \<Rightarrow> goslice \<Rightarrow> Connect \<times> error option" where
  "Connect_Decode c buf =
     (if len buf < 4 then (c, Some ErrInvalidPacket)
      else
        (case slice_expr buf 0 2 of
           None \<Rightarrow> (c, Some RuntimePanic)
         | Some h0 \<Rightarrow>
        (case BigEndian_Uint16 (elems h0) of
           None \<Rightarrow> (c, Some RuntimePanic)
         | Some msgLen \<Rightarrow>
        (case slice_expr buf 2 4 of
           None \<Rightarrow> (c, Some RuntimePanic)
         | Some h1 \<Rightarrow>
        (case BigEndian_Uint16 (elems h1) of
           None \<Rightarrow> (c, Some RuntimePanic)
         | Some signLen \<Rightarrow>
             if uint msgLen + uint signLen + 4 > len buf then (c, Some ErrInvalidPacket)
             else
               (case slice_expr buf 4 (uint (4 + msgLen)) of
                  None \<Rightarrow> (c, Some RuntimePanic)
                | Some key \<Rightarrow>
                    let c1 = c\<lparr>ACLKey := elems key\<rparr> in
                    (case slice_expr buf (uint (4 + msgLen)) (uint (4 + msgLen + signLen)) of
                       None \<Rightarrow> (c1, Some RuntimePanic)
                     | Some sig \<Rightarrow> (c1\<lparr>Signature := elems sig\<rparr>, None))))))))"

subsection \<open>ConnectResult\<close>

text \<open>\<open>RawMsg\<close> is a \<open>[31]byte\<close>: a byte list of length 31.\<close>

record ConnectResult =
  Welcome :: bool
  RawMsg :: bytes
  MsgLen :: int

definition ConnectResult_wf :: "ConnectResult \<Rightarrow> bool" where
  "ConnectResult_wf c = (length (RawMsg c) = 31)"

text \<open>The zero value of the struct, as \<open>var c ConnectResult\<close> gives it.\<close>

definition ConnectResult_zero :: ConnectResult where
  "ConnectResult_zero = \<lparr>Welcome = False, RawMsg = replicate 31 0, MsgLen = 0\<rparr>"

definition ConnectResult_Len :: "ConnectResult \<Rightarrow> int" where
  "ConnectResult_Len c = 1 + MsgLen c"

definition EncodeMessage :: "ConnectResult \<Rightarrow> bytes \<Rightarrow> ConnectResult \<times> error option" where
  "EncodeMessage c msg =
     (let raw = msg in
      if length raw > length (RawMsg c) then (c, Some ErrBufferTooShort)
      else
        (case copy_prefix (RawMsg c) (int (length raw)) raw of
           None \<Rightarrow> (c, Some RuntimePanic)
         | Some a \<Rightarrow>
             let c1 = c\<lparr>RawMsg := a\<rparr>
             in (c1\<lparr>MsgLen := int (length raw)\<rparr>, None)))"

definition DecodeMessage :: "ConnectResult \<Rightarrow> error + bytes" where
  "DecodeMessage c =
     (case array_slice (RawMsg c) 0 (int (length (RawMsg c))) of
        None \<Rightarrow> Inl RuntimePanic
      | Some s \<Rightarrow> Inr s)"

definition ConnectResult_Encode :: "ConnectResult \<Rightarrow> goslice \<Rightarrow> error + bytes" where
  "ConnectResult_Encode c buf =
     (case slice_expr buf 0 0 of
        None \<Rightarrow> Inl RuntimePanic
      | Some b0 \<Rightarrow>
          let b1 = (if Welcome c then elems b0 @ [1] else elems b0 @ [0]);
              b2 = b1 @ [word_of_int (MsgLen c AND 0xFF)]
          in (case array_slice (RawMsg c) 0 (MsgLen c) of
                None \<Rightarrow> Inl RuntimePanic
              | Some m \<Rightarrow> Inr (b2 @ m)))"

text \<open>
  In \<open>Decode\<close>, \<open>2+msgLen\<close> is a sum of \<open>uint8\<close> values and wraps at 256 before it
  is converted to \<open>int\<close>; \<open>Welcome\<close> is assigned before the length is tested and
  \<open>MsgLen\<close> before \<open>RawMsg[:c.MsgLen]\<close> is evaluated. The two operands of
  \<open>copy\<close> are evaluated from left to right; a panic in either leaves the same state.
\<close>

definition ConnectResult_Decode ::
  "ConnectResult \<Rightarrow> goslice \<Rightarrow> ConnectResult \<times> error option" where
  "ConnectResult_Decode c buf =
     (if len buf < 2 then (c, Some ErrInvalidPacket)
      else
        let msgLen = elems buf ! 1;
            c1 = c\<lparr>Welcome := (elems buf ! 0 > 0)\<rparr>
        in if uint (2 + msgLen) > len buf then (c1, Some ErrInvalidPacket)
           else
             let c2 = c1\<lparr>MsgLen := uint msgLen\<rparr> in
             (case array_slice (RawMsg c2) 0 (MsgLen c2) of
                None \<Rightarrow> (c2, Some RuntimePanic)
              | Some dst \<Rightarrow>
                  (case slice_expr buf 2 (2 + MsgLen c2) of
                     None \<Rightarrow> (c2, Some RuntimePanic)
                   | Some src \<Rightarrow>
                       (case copy_prefix (RawMsg c2) (MsgLen c2) (elems src) of
                          None \<Rightarrow> (c2, Some RuntimePanic)
                        | Some a \<Rightarrow> (c2\<lparr>RawMsg := a\<rparr>, None)))))"

subsection \<open>What the claims compare the code with\<close>

text \<open>
  HMAC as RFC 2104 states it, with SHA-512 and its block size of 128 bytes: the key, hashed
  when it is longer than a block and filled with zeros to a block, is xor-ed with the
  outer and the inner pad around two applications of the hash.
\<close>

definition HMAC_SHA512 :: "bytes \<Rightarrow> bytes \<Rightarrow> bytes" where
  "HMAC_SHA512 K text =
     (let K1 = (if length K > 128 then sha512 K else K);
          K0 = K1 @ replicate (128 - length K1) 0
      in sha512 (map (\<lambda>b. b XOR 0x5c) K0 @ sha512 (map (\<lambda>b. b XOR 0x36) K0 @ text)))"

text \<open>
  The two lengths a Connect packet declares: the big-endian 16-bit numbers in bytes 0-1
  and 2-3 of a buffer of at least 4 bytes.
\<close>

definition declared_lengths :: "goslice \<Rightarrow> 16 word \<times> 16 word" where
  "declared_lengths buf =
     (ucast (elems buf ! 1) OR push_bit 8 (ucast (elems buf ! 0)),
      ucast (elems buf ! 3) OR push_bit 8 (ucast (elems buf ! 2)))"

subsection \<open>A test vector\<close>

text \<open>
  The message \<open>abc\<close> of FIPS 180-4: its one padded block and the 80 words of the
  block's message schedule.
\<close>

definition abc_block :: bytes where
  "abc_block =
     [0x61, 0x62, 0x63, 0x80, 0x00, 0x00, 0x00, 0x00, 0x00, 0x00, 0x00, 0x00, 0x00, 0x00, 0x00, 0x00,
      0x00, 0x00, 0x00, 0x00, 0x00, 0x00, 0x00, 0x00, 0x00, 0x00, 0x00, 0x00, 0x00, 0x00, 0x00, 0x00,
      0x00, 0x00, 0x00, 0x00, 0x00, 0x00, 0x00, 0x00, 0x00, 0x00, 0x00, 0x00, 0x00, 0x00, 0x00, 0x00,
      0x00, 0x00, 0x00, 0x00, 0x00, 0x00, 0x00, 0x00, 0x00, 0x00, 0x00, 0x00, 0x00, 0x00, 0x00, 0x00,
      0x00, 0x00, 0x00, 0x00, 0x00, 0x00, 0x00, 0x00, 0x00, 0x00, 0x00, 0x00, 0x00, 0x00, 0x00, 0x00,
      0x00, 0x00, 0x00, 0x00, 0x00, 0x00, 0x00, 0x00, 0x00, 0x00, 0x00, 0x00, 0x00, 0x00, 0x00, 0x00,
      0x00, 0x00, 0x00, 0x00, 0x00, 0x00, 0x00, 0x00, 0x00, 0x00, 0x00, 0x00, 0x00, 0x00, 0x00, 0x00,
      0x00, 0x00, 0x00, 0x00, 0x00, 0x00, 0x00, 0x00, 0x00, 0x00, 0x00, 0x00, 0x00, 0x00, 0x00, 0x18]"

definition abc_W :: "u64 list" where
  "abc_W =
     [0x6162638000000000, 0x0000000000000000, 0x0000000000000000, 0x0000000000000000,
      0x0000000000000000, 0x0000000000000000, 0x0000000000000000, 0x0000000000000000,
      0x0000000000000000, 0x0000000000000000, 0x0000000000000000, 0x0000000000000000,
      0x0000000000000000, 0x0000000000000000, 0x0000000000000000, 0x0000000000000018,
      0x6162638000000000, 0x00030000000000C0, 0x0A9699A24C700003, 0x00000C0060000603,
      0x549EF62639858996, 0x00C0003300003C00, 0x1497007A8A0E9DBC, 0x62E56500CC0780F0,
      0x7760DD475A538797, 0xF1554B711C1C0003, 0xCA2993A4345D9FF2, 0x5E0E66B5C783DD32,
      0xE25A625D00494B62, 0x9F44486FB1E4FBD2, 0xB31B8C2B06085F2F, 0x0E987660934142F6,
      0xA4AF2CFD09FBB924, 0xAD289E2E0BD53186, 0x3C74563AA2F9673E, 0x6CCDCD14CC14B53F,
      0xC3F925B337F22BDE, 0x5BCC77A75AD95B54, 0x3EC2257ADCA09A52, 0x28246960001FC5EB,
      0x04E33A75CE2BE88A, 0x7D5314B3C359E0E7, 0xAEF7A285FF251266, 0x0B8472581DEEA04F,
      0xB174E26EDDC7B033, 0x5D63BAE58DDD88DE, 0x4C044007B744CCBB, 0xE6A9AA4D74DC7D43,
      0xEBEAF1237248019C, 0x361E80B2D00F3193, 0x2E9839125DF3B175, 0x3319629293AD5363,
      0x9CBC5D89AC1B89D5, 0x275E23FFEECA50B7, 0x3B80D680BF69EF58, 0x0D0696933945A125,
      0x7533EABCB786FF00, 0xB89826CEE6FBF0E5, 0x249B4FBCAD623E9F, 0x4AEA9DF2B02D6F1E,
      0x2CC57475A55E8D8F, 0xB2574AE938D8BE89, 0xC1B35A57B16D6AEA, 0xCC4918B5949206BB,
      0x5099C3ADD79F90EC, 0x5EA81D78E7660BF1, 0xEBEE6267405AC2A9, 0xB01F21926108A4AB,
      0x786433DD2FE65556, 0xC54A6EAA24A0552C, 0xB3C8F1530BDBAA9E, 0xBB8ABFE56F469338,
      0xF63D4265CC1C5A78, 0xBE8355EA73129AFB, 0x49E2DB8EBDCFBEB5, 0x82269D4A883A3D99,
      0xFDF53DF3011F362B, 0x464AF5671D71C12E, 0xE449B68198EC611C, 0x92AEEED1A7BCF7D2]"

section \<open>Properties\<close>

subsection \<open>Byte strings and digests\<close>

lemma bytes_Compare_eq_0: "(bytes_Compare xs ys = 0) = (xs = ys)"
  by (induction xs ys rule: bytes_Compare.induct) auto

lemma length_be_bytes64: "length (be_bytes64 w) = 8"
  by (simp add: be_bytes64_def)

lemma length_hash_bytes: "length (hash_bytes H) = 64"
  by (induction H rule: hash_bytes.induct) (simp add: length_be_bytes64)

lemma length_sha512: "length (sha512 m) = 64"
  by (simp add: sha512_def length_hash_bytes)

lemma length_Connect_HMAC: "length (Connect_HMAC c challenge psk) = 64"
  by (simp add: Connect_HMAC_def hmac_Sum_def Let_def length_sha512)

subsection \<open>SHA-512 of \<open>abc\<close>\<close>

text \<open>
  The model of \<open>sha512\<close> computes the digest that FIPS 180-4 gives for the three bytes
  \<open>abc\<close>. The one block of the padded message is evaluated in steps: the 80 words of
  the schedule, sixteen at a time, and the 80 rounds, twenty at a time.
\<close>

lemma schedule_ext_add: "schedule_ext (m + n) w = schedule_ext n (schedule_ext m w)"
  by (induction m arbitrary: w) simp_all

lemma foldl_zip_split:
  "foldl f s (zip ks ws) =
     foldl f (foldl f s (zip (take n ks) (take n ws))) (zip (drop n ks) (drop n ws))"
proof -
  have "zip ks ws = zip (take n ks) (take n ws) @ zip (drop n ks) (drop n ws)"
    by (simp add: take_zip [symmetric] drop_zip [symmetric])
  then show ?thesis
    by (simp only: foldl_append)
qed

lemma sha512_blocks_short: "length p < 128 \<Longrightarrow> sha512_blocks H p = H"
  by (subst sha512_blocks.simps) simp

lemma sha512_blocks_step:
  "128 \<le> length p \<Longrightarrow>
   sha512_blocks H p = sha512_blocks (sha512_block H (take 128 p)) (drop 128 p)"
  by (subst sha512_blocks.simps) simp

lemma sha512_blocks_one: "length p = 128 \<Longrightarrow> sha512_blocks H p = sha512_block H p"
  by (simp add: sha512_blocks_step sha512_blocks_short)

lemma abc_padded: "sha512_pad (str_bytes ''abc'') = abc_block"
  by code_simp

lemma abc_words:
  "map (\<lambda>i. be_word64 (take 8 (drop (8 * i) abc_block))) [0 ..< 16] = take 16 abc_W"
  by code_simp

lemma abc_schedule_32: "schedule_ext 16 (take 16 abc_W) = take 32 abc_W"
  by code_simp

lemma abc_schedule_48: "schedule_ext 16 (take 32 abc_W) = take 48 abc_W"
  by code_simp

lemma abc_schedule_64: "schedule_ext 16 (take 48 abc_W) = take 64 abc_W"
  by code_simp

lemma abc_schedule_80: "schedule_ext 16 (take 64 abc_W) = abc_W"
  by code_simp

lemma abc_schedule: "schedule abc_block = abc_W"
proof -
  have "schedule_ext (16 + 16 + 16 + 16) w =
      schedule_ext 16 (schedule_ext 16 (schedule_ext 16 (schedule_ext 16 w)))" for w
    by (simp only: schedule_ext_add)
  then have e: "schedule_ext 64 w =
      schedule_ext 16 (schedule_ext 16 (schedule_ext 16 (schedule_ext 16 w)))" for w
    by simp
  show ?thesis
    unfolding schedule_def abc_words e abc_schedule_32 abc_schedule_48 abc_schedule_64
      abc_schedule_80 by (rule refl)
qed

lemma abc_rounds_20:
  "foldl sha512_round sha512_init (zip (take 20 sha512_K) (take 20 abc_W)) =
     (0x9A3FB4D38AB6CF06, 0x3C4B4104168E3EDB, 0x4725BE249AD19E6B, 0xCAF81A425D800537,
      0xF14998DD5F70767E, 0x29695FD88D81DBD0, 0xF47E8353F8047455, 0x2DEECC6B39D64D78)"
  by code_simp

lemma abc_rounds_40:
  "foldl sha512_round
     (0x9A3FB4D38AB6CF06, 0x3C4B4104168E3EDB, 0x4725BE249AD19E6B, 0xCAF81A425D800537,
      0xF14998DD5F70767E, 0x29695FD88D81DBD0, 0xF47E8353F8047455, 0x2DEECC6B39D64D78)
     (zip (take 20 (drop 20 sha512_K)) (take 20 (drop 20 abc_W))) =
     (0x8E01E125B855D225, 0xB3BB8542B3376DE5, 0x002BB8E4CD989567, 0x88DF85B0BBE77514,
      0x0C710A47BA6A567B, 0xB49596C20FEBA7DE, 0x66ADCFA249AC7BBD, 0x8FBFD0162BBF4675)"
  by code_simp

lemma abc_rounds_60:
  "foldl sha512_round
     (0x8E01E125B855D225, 0xB3BB8542B3376DE5, 0x002BB8E4CD989567, 0x88DF85B0BBE77514,
      0x0C710A47BA6A567B, 0xB49596C20FEBA7DE, 0x66ADCFA249AC7BBD, 0x8FBFD0162BBF4675)
     (zip (take 20 (drop 20 (drop 20 sha512_K))) (take 20 (drop 20 (drop 20 abc_W)))) =
     (0x2C074484EF1EAC8C, 0x581ECB3355DCD9B8, 0x4B81C3AEC976EA4B, 0x7A52912943D52B05,
      0x4797CDE4ED370692, 0x6A3C9B0F71C8BF36, 0x70505988124351AC, 0xD2E89BBD91E00BE0)"
  by code_simp

lemma abc_rounds_80:
  "foldl sha512_round
     (0x2C074484EF1EAC8C, 0x581ECB3355DCD9B8, 0x4B81C3AEC976EA4B, 0x7A52912943D52B05,
      0x4797CDE4ED370692, 0x6A3C9B0F71C8BF36, 0x70505988124351AC, 0xD2E89BBD91E00BE0)
     (zip (drop 20 (drop 20 (drop 20 sha512_K))) (drop 20 (drop 20 (drop 20 abc_W)))) =
     (0x73A54F399FA4B1B2, 0x10D9C4C4295599F6, 0xD67806DB8B148677, 0x654EF9ABEC389CA9,
      0xD08446AA79693ED7, 0x9BB4D39778C07F9E, 0x25C96A7768FB2AA3, 0xCEB9FC3691CE8326)"
  by code_simp

lemma abc_rounds:
  "foldl sha512_round sha512_init (zip sha512_K abc_W) =
     (0x73A54F399FA4B1B2, 0x10D9C4C4295599F6, 0xD67806DB8B148677, 0x654EF9ABEC389CA9,
      0xD08446AA79693ED7, 0x9BB4D39778C07F9E, 0x25C96A7768FB2AA3, 0xCEB9FC3691CE8326)"
  unfolding foldl_zip_split [of _ _ sha512_K abc_W 20]
    foldl_zip_split [of _ _ "drop 20 sha512_K" "drop 20 abc_W" 20]
    foldl_zip_split [of _ _ "drop 20 (drop 20 sha512_K)" "drop 20 (drop 20 abc_W)" 20]
    abc_rounds_20 abc_rounds_40 abc_rounds_60 abc_rounds_80
  by (rule refl)

lemma abc_sum:
  "hash_add sha512_init
     (0x73A54F399FA4B1B2, 0x10D9C4C4295599F6, 0xD67806DB8B148677, 0x654EF9ABEC389CA9,
      0xD08446AA79693ED7, 0x9BB4D39778C07F9E, 0x25C96A7768FB2AA3, 0xCEB9FC3691CE8326) =
     (0xDDAF35A193617ABA, 0xCC417349AE204131, 0x12E6FA4E89A97EA2, 0x0A9EEEE64B55D39A,
      0x2192992A274FC1A8, 0x36BA3C23A3FEEBBD, 0x454D4423643CE80E, 0x2A9AC94FA54CA49F)"
  by code_simp

lemma abc_digest:
  "hash_bytes
     (0xDDAF35A193617ABA, 0xCC417349AE204131, 0x12E6FA4E89A97EA2, 0x0A9EEEE64B55D39A,
      0x2192992A274FC1A8, 0x36BA3C23A3FEEBBD, 0x454D4423643CE80E, 0x2A9AC94FA54CA49F) =
     [0xDD, 0xAF, 0x35, 0xA1, 0x93, 0x61, 0x7A, 0xBA, 0xCC, 0x41, 0x73, 0x49, 0xAE, 0x20, 0x41, 0x31,
      0x12, 0xE6, 0xFA, 0x4E, 0x89, 0xA9, 0x7E, 0xA2, 0x0A, 0x9E, 0xEE, 0xE6, 0x4B, 0x55, 0xD3, 0x9A,
      0x21, 0x92, 0x99, 0x2A, 0x27, 0x4F, 0xC1, 0xA8, 0x36, 0xBA, 0x3C, 0x23, 0xA3, 0xFE, 0xEB, 0xBD,
      0x45, 0x4D, 0x44, 0x23, 0x64, 0x3C, 0xE8, 0x0E, 0x2A, 0x9A, 0xC9, 0x4F, 0xA5, 0x4C, 0xA4, 0x9F]"
  by code_simp

lemma sha512_abc:
  "sha512 (str_bytes ''abc'') =
     [0xDD, 0xAF, 0x35, 0xA1, 0x93, 0x61, 0x7A, 0xBA, 0xCC, 0x41, 0x73, 0x49, 0xAE, 0x20, 0x41, 0x31,
      0x12, 0xE6, 0xFA, 0x4E, 0x89, 0xA9, 0x7E, 0xA2, 0x0A, 0x9E, 0xEE, 0xE6, 0x4B, 0x55, 0xD3, 0x9A,
      0x21, 0x92, 0x99, 0x2A, 0x27, 0x4F, 0xC1, 0xA8, 0x36, 0xBA, 0x3C, 0x23, 0xA3, 0xFE, 0xEB, 0xBD,
      0x45, 0x4D, 0x44, 0x23, 0x64, 0x3C, 0xE8, 0x0E, 0x2A, 0x9A, 0xC9, 0x4F, 0xA5, 0x4C, 0xA4, 0x9F]"
proof -
  have "length abc_block = 128"
    by (simp add: abc_block_def)
  then have "sha512_blocks sha512_init abc_block = sha512_block sha512_init abc_block"
    by (rule sha512_blocks_one)
  then have "sha512_blocks sha512_init abc_block =
      (0xDDAF35A193617ABA, 0xCC417349AE204131, 0x12E6FA4E89A97EA2, 0x0A9EEEE64B55D39A,
       0x2192992A274FC1A8, 0x36BA3C23A3FEEBBD, 0x454D4423643CE80E, 0x2A9AC94FA54CA49F)"
    unfolding sha512_block_def abc_schedule abc_rounds abc_sum .
  then show ?thesis
    unfolding sha512_def abc_padded by (simp only: abc_digest)
qed

subsection \<open>Slices and copies\<close>

lemma slice_expr_00:
  "slice_expr buf 0 0 = Some \<lparr>elems = [], spare = elems buf @ spare buf\<rparr>"
  by (simp add: slice_expr_def cap_def)

lemma slice_expr_in_len:
  "0 \<le> lo \<Longrightarrow> lo \<le> hi \<Longrightarrow> hi \<le> len s \<Longrightarrow>
   slice_expr s lo hi =
     Some \<lparr>elems = take (nat (hi - lo)) (drop (nat lo) (elems s)),
           spare = drop (nat hi) (elems s) @ spare s\<rparr>"
  by (simp add: slice_expr_def len_def cap_def)

lemma slice_expr_reversed: "hi < lo \<Longrightarrow> slice_expr s lo hi = None"
  by (simp add: slice_expr_def)

lemma array_slice_prefix:
  "0 \<le> n \<Longrightarrow> n \<le> int (length a) \<Longrightarrow> array_slice a 0 n = Some (take (nat n) a)"
  by (simp add: array_slice_def)

lemma array_slice_beyond: "int (length a) < n \<Longrightarrow> array_slice a 0 n = None"
  by (simp add: array_slice_def)

lemma copy_prefix_fits:
  "0 \<le> n \<Longrightarrow> n \<le> int (length a) \<Longrightarrow> length src = nat n \<Longrightarrow>
   copy_prefix a n src = Some (src @ drop (nat n) a)"
  by (simp add: copy_prefix_def array_slice_prefix)

lemma copy_prefix_beyond: "int (length a) < n \<Longrightarrow> copy_prefix a n src = None"
  by (simp add: copy_prefix_def array_slice_beyond)

lemma take2: "2 \<le> length xs \<Longrightarrow> take 2 xs = [xs ! 0, xs ! 1]"
  by (cases xs; cases "tl xs") auto

lemma drop_header: "drop (4 + n) (a # b # c # d # xs) = drop n xs"
  by (simp add: numeral_eq_Suc)

subsection \<open>Sums that wrap\<close>

lemma be16_bytes:
  "ucast (ucast w :: byte) OR push_bit 8 (ucast (ucast (drop_bit 8 w) :: byte)) = (w :: 16 word)"
  by (rule bit_word_eqI) (auto simp: bit_simps)

lemma Uint16_2: "BigEndian_Uint16 [a, b] = Some (ucast b OR push_bit 8 (ucast a))"
  by (simp add: BigEndian_Uint16_def)

lemma PutUint16_2: "BigEndian_PutUint16 [a, b] v = Some [ucast (drop_bit 8 v), ucast v]"
  by (simp add: BigEndian_PutUint16_def)

lemma mod_once: "65536 \<le> x \<Longrightarrow> x < 131072 \<Longrightarrow> x mod 65536 = x - (65536 :: int)"
proof -
  assume a: "65536 \<le> x" "x < 131072"
  have "(x - 65536 + 65536) mod 65536 = (x - 65536) mod 65536"
    by (rule mod_add_self2)
  moreover have "(x - 65536) mod 65536 = x - 65536"
    using a by (intro mod_pos_pos_trivial) simp_all
  ultimately show ?thesis by simp
qed

lemma uint_plus16:
  "uint (a + b :: 16 word) =
     (if uint a + uint b < 65536 then uint a + uint b else uint a + uint b - 65536)"
proof -
  have ab: "0 \<le> uint a" "uint a < 65536" "0 \<le> uint b" "uint b < 65536"
    using uint_lt2p [of a] uint_lt2p [of b] by simp_all
  have e: "uint (a + b) = (uint a + uint b) mod 65536"
    by (simp add: uint_word_ariths)
  show ?thesis
  proof (cases "uint a + uint b < 65536")
    case True
    then have "(uint a + uint b) mod 65536 = uint a + uint b"
      using ab by (intro mod_pos_pos_trivial) simp_all
    with True e show ?thesis by simp
  next
    case False
    then have "(uint a + uint b) mod 65536 = uint a + uint b - 65536"
      using ab by (intro mod_once) simp_all
    with False e show ?thesis by simp
  qed
qed

lemma uint_2_plus:
  "uint (2 + n :: byte) = (if uint n < 254 then 2 + uint n else uint n - 254)"
proof -
  have nb: "0 \<le> uint n" "uint n < 256" using uint_lt2p [of n] by simp_all
  have e: "uint (2 + n) = (2 + uint n) mod 256"
    by (simp add: uint_word_ariths)
  show ?thesis
  proof (cases "uint n < 254")
    case True
    then have "(2 + uint n) mod 256 = 2 + uint n"
      using nb by (intro mod_pos_pos_trivial) simp_all
    with True e show ?thesis by simp
  next
    case False
    have "(uint n - 254 + 256) mod 256 = (uint n - 254) mod 256"
      by (rule mod_add_self2)
    moreover have "(uint n - 254) mod 256 = uint n - 254"
      using False nb by (intro mod_pos_pos_trivial) simp_all
    ultimately have "(2 + uint n) mod 256 = uint n - 254" by simp
    with False e show ?thesis by simp
  qed
qed

lemma uint_byte_of_masked:
  assumes "0 \<le> n" and "n < 256"
  shows "uint (word_of_int (n AND 0xFF) :: byte) = n"
proof -
  have "n AND 0xFF = take_bit 8 n"
    by (simp add: take_bit_eq_mask mask_eq_exp_minus_1)
  moreover have "take_bit 8 n = n"
    using assms by (simp add: take_bit_int_eq_self)
  ultimately show ?thesis
    by (simp add: uint_word_of_int_eq)
qed

subsection \<open>Hello\<close>

lemma Hello_Encode_eq:
  "Hello_Encode h buf = Inr (helloMagic @ Challenge h)"
  by (simp add: Hello_Encode_def slice_expr_def cap_def array_slice_def)

lemma Hello_roundtrip:
  assumes "Hello_wf h" and "Hello_wf h0"
  shows "Hello_Encode h buf = Inr (helloMagic @ Challenge h)"
    and "length (helloMagic @ Challenge h) = 22"
    and "Hello_Decode h0 \<lparr>elems = helloMagic @ Challenge h, spare = sp\<rparr> = (h, None)"
proof -
  have wf: "length (Challenge h) = 16" "length (Challenge h0) = 16"
    using assms by (simp_all add: Hello_wf_def)
  show "Hello_Encode h buf = Inr (helloMagic @ Challenge h)"
    by (rule Hello_Encode_eq)
  show "length (helloMagic @ Challenge h) = 22"
    using wf by (simp add: helloMagic_def)
  let ?b = "\<lparr>elems = helloMagic @ Challenge h, spare = sp\<rparr>"
  have l: "len ?b = 22" using wf by (simp add: len_def helloMagic_def)
  have m: "slice_expr ?b 0 6 = Some \<lparr>elems = helloMagic, spare = Challenge h @ sp\<rparr>"
    using l by (simp add: slice_expr_in_len) (simp add: helloMagic_def)
  have s: "slice_expr ?b 6 22 = Some \<lparr>elems = Challenge h, spare = sp\<rparr>"
    using l wf by (simp add: slice_expr_in_len) (simp add: helloMagic_def)
  have d: "array_slice (Challenge h0) 0 16 = Some (Challenge h0)"
    using wf by (simp add: array_slice_def)
  have cp: "copy_prefix (Challenge h0) 16 (Challenge h) = Some (Challenge h)"
    using wf by (simp add: copy_prefix_fits)
  have lm: "int (length helloMagic) = 6" by (simp add: helloMagic_def)
  have "Hello_Decode h0 ?b = (h0\<lparr>Challenge := Challenge h\<rparr>, None)"
    using wf by (simp add: Hello_Decode_def Hello_Len_def l lm m s d cp bytes_Compare_eq_0)
  then show "Hello_Decode h0 ?b = (h, None)" by simp
qed

subsection \<open>Connect\<close>

lemma Connect_Encode_eq:
  "Connect_Encode c buf =
     (if 65535 < length (ACLKey c) \<or> 65535 < length (Signature c) then Inl ErrContentTooLong
      else Inr ([ucast (drop_bit 8 (of_nat (length (ACLKey c)) :: 16 word)),
                 ucast (of_nat (length (ACLKey c)) :: 16 word),
                 ucast (drop_bit 8 (of_nat (length (Signature c)) :: 16 word)),
                 ucast (of_nat (length (Signature c)) :: 16 word)] @ ACLKey c @ Signature c))"
  by (simp add: Connect_Encode_def slice_expr_00 PutUint16_2 Let_def)

lemma header_slices:
  assumes "4 \<le> len buf"
  shows "slice_expr buf 0 2 =
      Some \<lparr>elems = [elems buf ! 0, elems buf ! 1], spare = drop 2 (elems buf) @ spare buf\<rparr>"
    and "slice_expr buf 2 4 =
      Some \<lparr>elems = [elems buf ! 2, elems buf ! 3], spare = drop 4 (elems buf) @ spare buf\<rparr>"
proof -
  from assms have l: "4 \<le> length (elems buf)" by (simp add: len_def)
  then show "slice_expr buf 0 2 =
      Some \<lparr>elems = [elems buf ! 0, elems buf ! 1], spare = drop 2 (elems buf) @ spare buf\<rparr>"
    using assms by (simp add: slice_expr_in_len take2)
  have "take 2 (drop 2 (elems buf)) = [elems buf ! 2, elems buf ! 3]"
    using l by (simp add: take2)
  then show "slice_expr buf 2 4 =
      Some \<lparr>elems = [elems buf ! 2, elems buf ! 3], spare = drop 4 (elems buf) @ spare buf\<rparr>"
    using assms by (simp add: slice_expr_in_len)
qed

lemma Connect_Decode_short:
  "len buf < 4 \<Longrightarrow> Connect_Decode c buf = (c, Some ErrInvalidPacket)"
  by (simp add: Connect_Decode_def)

lemma Connect_Decode_header:
  assumes "4 \<le> len buf" and "declared_lengths buf = (m, s)"
  shows "Connect_Decode c buf =
     (if uint m + uint s + 4 > len buf then (c, Some ErrInvalidPacket)
      else
        (case slice_expr buf 4 (uint (4 + m)) of
           None \<Rightarrow> (c, Some RuntimePanic)
         | Some key \<Rightarrow>
             (case slice_expr buf (uint (4 + m)) (uint (4 + m + s)) of
                None \<Rightarrow> (c\<lparr>ACLKey := elems key\<rparr>, Some RuntimePanic)
              | Some sig \<Rightarrow> (c\<lparr>ACLKey := elems key, Signature := elems sig\<rparr>, None))))"
  using assms
  by (simp add: Connect_Decode_def header_slices Uint16_2 declared_lengths_def Let_def
      split: option.splits)

lemma Connect_Decode_truncated:
  assumes "4 \<le> len buf" and "declared_lengths buf = (m, s)" and "uint m + uint s + 4 > len buf"
  shows "Connect_Decode c buf = (c, Some ErrInvalidPacket)"
  using assms by (simp add: Connect_Decode_header)

lemma Connect_Decode_ok:
  assumes "4 \<le> len buf" and "declared_lengths buf = (m, s)"
    and "uint m + uint s + 4 \<le> len buf" and "uint m + uint s + 4 < 65536"
  shows "Connect_Decode c buf =
    (c\<lparr>ACLKey := take (unat m) (drop 4 (elems buf)),
       Signature := take (unat s) (drop (4 + unat m) (elems buf))\<rparr>, None)"
proof -
  have m4: "uint m + 4 < 65536"
    using assms(4) uint_ge_0 [of s] by linarith
  have ml: "4 + uint m \<le> len buf"
    using assms(3) uint_ge_0 [of s] by linarith
  have a: "uint (4 + m) = 4 + uint m"
    using m4 by (simp add: uint_plus16)
  have b: "uint (4 + m + s) = 4 + uint m + uint s"
    using assms(4) by (simp add: uint_plus16 [of "4 + m" s] a)
  have k: "slice_expr buf 4 (4 + uint m) =
      Some \<lparr>elems = take (unat m) (drop 4 (elems buf)),
            spare = drop (nat (4 + uint m)) (elems buf) @ spare buf\<rparr>"
    using ml by (simp add: slice_expr_in_len)
  have n: "nat (4 + uint m) = 4 + unat m" by (simp add: nat_add_distrib)
  have g: "slice_expr buf (4 + uint m) (4 + uint m + uint s) =
      Some \<lparr>elems = take (unat s) (drop (4 + unat m) (elems buf)),
            spare = drop (nat (4 + uint m + uint s)) (elems buf) @ spare buf\<rparr>"
    using assms(3) by (simp add: slice_expr_in_len n)
  show ?thesis
    using assms(1-3) by (simp add: Connect_Decode_header a b k g)
qed

lemma Connect_Decode_wraps_state:
  assumes "4 \<le> len buf" and "declared_lengths buf = (m, s)"
    and "uint m + uint s + 4 \<le> len buf" and "65536 \<le> uint m + uint s + 4"
  shows "Connect_Decode c buf =
    (if uint m + 4 < 65536 then c\<lparr>ACLKey := take (unat m) (drop 4 (elems buf))\<rparr> else c,
     Some RuntimePanic)"
proof (cases "uint m + 4 < 65536")
  case True
  have ml: "4 + uint m \<le> len buf"
    using assms(3) uint_ge_0 [of s] by linarith
  have sb: "uint s < 65536" using uint_lt2p [of s] by simp
  have a: "uint (4 + m) = 4 + uint m"
    using True by (simp add: uint_plus16)
  have "uint (4 + m + s) = 4 + uint m + uint s - 65536"
    using assms(4) by (simp add: uint_plus16 [of "4 + m" s] a)
  then have b: "uint (4 + m + s) < uint (4 + m)"
    using a sb by simp
  have k: "slice_expr buf 4 (4 + uint m) =
      Some \<lparr>elems = take (unat m) (drop 4 (elems buf)),
            spare = drop (nat (4 + uint m)) (elems buf) @ spare buf\<rparr>"
    using ml by (simp add: slice_expr_in_len)
  have g: "slice_expr buf (4 + uint m) (uint (4 + m + s)) = None"
    using b a by (intro slice_expr_reversed) simp
  show ?thesis
    using assms(1-3) True by (simp add: Connect_Decode_header a k g)
next
  case False
  have "uint (4 + m) = 4 + uint m - 65536"
    using False by (simp add: uint_plus16)
  moreover have "uint m < 65536" using uint_lt2p [of m] by simp
  ultimately have "uint (4 + m) < 4" by simp
  then have "slice_expr buf 4 (uint (4 + m)) = None"
    by (rule slice_expr_reversed)
  then show ?thesis
    using assms(1-3) False by (simp add: Connect_Decode_header)
qed

lemma Connect_Decode_wraps:
  assumes "4 \<le> len buf" and "declared_lengths buf = (m, s)"
    and "uint m + uint s + 4 \<le> len buf" and "65536 \<le> uint m + uint s + 4"
  shows "snd (Connect_Decode c buf) = Some RuntimePanic"
  by (simp add: Connect_Decode_wraps_state [OF assms])

text \<open>The three outcomes of decoding a Connect, for any buffer.\<close>

lemma Connect_Decode_outcome:
  assumes "declared_lengths buf = (m, s)"
  shows "snd (Connect_Decode c buf) =
     (if len buf < 4 \<or> len buf < uint m + uint s + 4 then Some ErrInvalidPacket
      else if uint m + uint s + 4 < 65536 then None
      else Some RuntimePanic)"
proof -
  consider "len buf < 4" | "4 \<le> len buf" "len buf < uint m + uint s + 4"
    | "4 \<le> len buf" "uint m + uint s + 4 \<le> len buf" "uint m + uint s + 4 < 65536"
    | "4 \<le> len buf" "uint m + uint s + 4 \<le> len buf" "65536 \<le> uint m + uint s + 4"
    by linarith
  then show ?thesis
  proof cases
    case 1
    then show ?thesis by (simp add: Connect_Decode_short)
  next
    case 2
    then show ?thesis using assms by (simp add: Connect_Decode_truncated)
  next
    case 3
    then show ?thesis using assms by (simp add: Connect_Decode_ok)
  next
    case 4
    then show ?thesis using assms by (simp add: Connect_Decode_wraps)
  qed
qed

text \<open>
  No decoder reads behind the length of its buffer: the bytes of the backing array past
  \<open>len(buf)\<close> have no part in what it does.
\<close>

lemma Connect_Decode_within_len:
  "Connect_Decode c \<lparr>elems = b, spare = sp\<rparr> = Connect_Decode c \<lparr>elems = b, spare = []\<rparr>"
proof -
  let ?p = "\<lparr>elems = b, spare = sp\<rparr>" and ?q = "\<lparr>elems = b, spare = []\<rparr>"
  obtain m s where d: "declared_lengths ?p = (m, s)"
    by (cases "declared_lengths ?p")
  then have d': "declared_lengths ?q = (m, s)"
    by (simp add: declared_lengths_def)
  have l: "len ?q = len ?p" by (simp add: len_def)
  consider "len ?p < 4" | "4 \<le> len ?p" "len ?p < uint m + uint s + 4"
    | "4 \<le> len ?p" "uint m + uint s + 4 \<le> len ?p" "uint m + uint s + 4 < 65536"
    | "4 \<le> len ?p" "uint m + uint s + 4 \<le> len ?p" "65536 \<le> uint m + uint s + 4"
    by linarith
  then show ?thesis
  proof cases
    case 1
    then show ?thesis using l by (simp add: Connect_Decode_short)
  next
    case 2
    then show ?thesis
      using l Connect_Decode_truncated [OF _ d, of c] Connect_Decode_truncated [OF _ d', of c]
      by simp
  next
    case 3
    then show ?thesis
      using l Connect_Decode_ok [OF _ d, of c] Connect_Decode_ok [OF _ d', of c]
      by simp
  next
    case 4
    then show ?thesis
      using l Connect_Decode_wraps_state [OF _ d, of c] Connect_Decode_wraps_state [OF _ d', of c]
      by simp
  qed
qed

lemma Connect_roundtrip:
  assumes "length (ACLKey c) + length (Signature c) + 4 < 65536"
  shows "\<exists>out. Connect_Encode c buf = Inr out
     \<and> Connect_Decode c0 \<lparr>elems = out, spare = sp\<rparr> = (c0\<lparr>ACLKey := ACLKey c, Signature := Signature c\<rparr>, None)"
proof -
  let ?m = "of_nat (length (ACLKey c)) :: 16 word"
  let ?s = "of_nat (length (Signature c)) :: 16 word"
  let ?out = "ucast (drop_bit 8 ?m) # ucast ?m # ucast (drop_bit 8 ?s) # ucast ?s
      # ACLKey c @ Signature c"
  let ?b = "\<lparr>elems = ?out, spare = sp\<rparr>"
  have e: "Connect_Encode c buf = Inr ?out"
    using assms by (simp add: Connect_Encode_eq)
  have um: "unat ?m = length (ACLKey c)"
    using assms by (intro of_nat_inverse) simp_all
  have us: "unat ?s = length (Signature c)"
    using assms by (intro of_nat_inverse) simp_all
  have uim: "uint ?m = int (length (ACLKey c))"
    using um by (simp add: uint_nat)
  have uis: "uint ?s = int (length (Signature c))"
    using us by (simp add: uint_nat)
  have l: "len ?b = 4 + int (length (ACLKey c)) + int (length (Signature c))"
    by (simp add: len_def)
  then have l4: "4 \<le> len ?b" by simp
  have d: "declared_lengths ?b = (?m, ?s)"
    by (simp add: declared_lengths_def be16_bytes)
  have fits: "uint ?m + uint ?s + 4 \<le> len ?b" "uint ?m + uint ?s + 4 < 65536"
    using assms by (simp_all add: uim uis l)
  have "Connect_Decode c0 ?b =
      (c0\<lparr>ACLKey := take (unat ?m) (drop 4 (elems ?b)),
          Signature := take (unat ?s) (drop (4 + unat ?m) (elems ?b))\<rparr>, None)"
    by (rule Connect_Decode_ok [OF l4 d fits])
  then have "Connect_Decode c0 ?b = (c0\<lparr>ACLKey := ACLKey c, Signature := Signature c\<rparr>, None)"
    by (simp add: um us drop_header)
  with e show ?thesis by blast
qed

subsection \<open>ConnectResult\<close>

lemma EncodeMessage_eq:
  "EncodeMessage c msg =
     (if length (RawMsg c) < length msg then (c, Some ErrBufferTooShort)
      else (c\<lparr>RawMsg := msg @ drop (length msg) (RawMsg c), MsgLen := int (length msg)\<rparr>, None))"
  by (simp add: EncodeMessage_def copy_prefix_fits Let_def)

lemma EncodeMessage_wf:
  "ConnectResult_wf c \<Longrightarrow> ConnectResult_wf (fst (EncodeMessage c msg))"
  by (simp add: EncodeMessage_eq ConnectResult_wf_def)

lemma DecodeMessage_eq: "DecodeMessage c = Inr (RawMsg c)"
  by (simp add: DecodeMessage_def array_slice_def)

lemma ConnectResult_Decode_short:
  "len buf < 2 \<Longrightarrow> ConnectResult_Decode c buf = (c, Some ErrInvalidPacket)"
  by (simp add: ConnectResult_Decode_def)

lemma ConnectResult_Decode_truncated:
  "2 \<le> len buf \<Longrightarrow> len buf < uint (2 + elems buf ! 1) \<Longrightarrow>
   ConnectResult_Decode c buf = (c\<lparr>Welcome := (0 < elems buf ! 0)\<rparr>, Some ErrInvalidPacket)"
  by (simp add: ConnectResult_Decode_def Let_def)

lemma ConnectResult_Decode_overflow:
  assumes "2 \<le> len buf" and "uint (2 + elems buf ! 1) \<le> len buf"
    and "int (length (RawMsg c)) < uint (elems buf ! 1)"
  shows "ConnectResult_Decode c buf =
    (c\<lparr>Welcome := (0 < elems buf ! 0), MsgLen := uint (elems buf ! 1)\<rparr>, Some RuntimePanic)"
  using assms by (simp add: ConnectResult_Decode_def Let_def array_slice_beyond)

lemma ConnectResult_Decode_ok:
  assumes "ConnectResult_wf c" and "2 \<le> len buf" and "uint (2 + elems buf ! 1) \<le> len buf"
    and "uint (elems buf ! 1) \<le> 31"
  shows "ConnectResult_Decode c buf =
    (c\<lparr>Welcome := (0 < elems buf ! 0), MsgLen := uint (elems buf ! 1),
       RawMsg := take (unat (elems buf ! 1)) (drop 2 (elems buf))
                 @ drop (unat (elems buf ! 1)) (RawMsg c)\<rparr>, None)"
proof -
  let ?n = "elems buf ! 1"
  have wf: "length (RawMsg c) = 31"
    using assms(1) by (simp add: ConnectResult_wf_def)
  have fits: "2 + uint ?n \<le> len buf"
    using assms(3,4) by (simp add: uint_2_plus)
  have dst: "array_slice (RawMsg c) 0 (uint ?n) = Some (take (unat ?n) (RawMsg c))"
    using assms(4) wf by (simp add: array_slice_prefix)
  have src: "slice_expr buf 2 (2 + uint ?n) =
      Some \<lparr>elems = take (unat ?n) (drop 2 (elems buf)),
            spare = drop (nat (2 + uint ?n)) (elems buf) @ spare buf\<rparr>"
    using fits by (simp add: slice_expr_in_len)
  have u: "uint ?n = int (unat ?n)" by (rule uint_nat)
  from fits have "2 + int (unat ?n) \<le> int (length (elems buf))"
    unfolding len_def u .
  then have "unat ?n + 2 \<le> length (elems buf)" by linarith
  then have l: "length (take (unat ?n) (drop 2 (elems buf))) = nat (uint ?n)"
    by simp
  have cp: "copy_prefix (RawMsg c) (uint ?n) (take (unat ?n) (drop 2 (elems buf))) =
      Some (take (unat ?n) (drop 2 (elems buf)) @ drop (unat ?n) (RawMsg c))"
    using assms(4) wf l by (simp add: copy_prefix_fits)
  show ?thesis
    using assms(2,3) by (simp add: ConnectResult_Decode_def Let_def dst src cp del: One_nat_def)
qed

lemma ConnectResult_Decode_wf:
  "ConnectResult_wf c \<Longrightarrow> ConnectResult_wf (fst (ConnectResult_Decode c buf))"
  by (auto simp add: ConnectResult_Decode_def ConnectResult_wf_def Let_def copy_prefix_def
      array_slice_def split: option.splits if_splits)

text \<open>The three outcomes of decoding a ConnectResult, for any buffer.\<close>

lemma ConnectResult_Decode_outcome:
  assumes "ConnectResult_wf c"
  shows "snd (ConnectResult_Decode c buf) =
     (if len buf < 2 \<or> len buf < uint (2 + elems buf ! 1) then Some ErrInvalidPacket
      else if 31 < uint (elems buf ! 1) then Some RuntimePanic
      else None)"
proof -
  have wf: "length (RawMsg c) = 31"
    using assms by (simp add: ConnectResult_wf_def)
  consider "len buf < 2" | "2 \<le> len buf" "len buf < uint (2 + elems buf ! 1)"
    | "2 \<le> len buf" "uint (2 + elems buf ! 1) \<le> len buf" "31 < uint (elems buf ! 1)"
    | "2 \<le> len buf" "uint (2 + elems buf ! 1) \<le> len buf" "uint (elems buf ! 1) \<le> 31"
    by linarith
  then show ?thesis
  proof cases
    case 1
    then show ?thesis by (simp add: ConnectResult_Decode_short)
  next
    case 2
    then show ?thesis by (simp add: ConnectResult_Decode_truncated del: One_nat_def)
  next
    case 3
    then show ?thesis
      using wf by (simp add: ConnectResult_Decode_overflow del: One_nat_def)
  next
    case 4
    then show ?thesis
      using assms by (simp add: ConnectResult_Decode_ok del: One_nat_def)
  qed
qed

lemma ConnectResult_Decode_within_len:
  assumes "ConnectResult_wf c"
  shows "ConnectResult_Decode c \<lparr>elems = b, spare = sp\<rparr> =
    ConnectResult_Decode c \<lparr>elems = b, spare = []\<rparr>"
proof -
  let ?p = "\<lparr>elems = b, spare = sp\<rparr>" and ?q = "\<lparr>elems = b, spare = []\<rparr>"
  have wf: "length (RawMsg c) = 31"
    using assms by (simp add: ConnectResult_wf_def)
  have l: "len ?q = len ?p" and e: "elems ?q = elems ?p"
    by (simp_all add: len_def)
  consider "len ?p < 2" | "2 \<le> len ?p" "len ?p < uint (2 + elems ?p ! 1)"
    | "2 \<le> len ?p" "uint (2 + elems ?p ! 1) \<le> len ?p" "31 < uint (elems ?p ! 1)"
    | "2 \<le> len ?p" "uint (2 + elems ?p ! 1) \<le> len ?p" "uint (elems ?p ! 1) \<le> 31"
    by linarith
  then show ?thesis
  proof cases
    case 1
    then show ?thesis using l by (simp add: ConnectResult_Decode_short)
  next
    case 2
    then show ?thesis
      using l ConnectResult_Decode_truncated [of ?p c] ConnectResult_Decode_truncated [of ?q c]
      by (simp del: One_nat_def)
  next
    case 3
    then show ?thesis
      using l wf ConnectResult_Decode_overflow [of ?p c] ConnectResult_Decode_overflow [of ?q c]
      by (simp del: One_nat_def)
  next
    case 4
    then show ?thesis
      using l ConnectResult_Decode_ok [OF assms, of ?p] ConnectResult_Decode_ok [OF assms, of ?q]
      by (simp del: One_nat_def)
  qed
qed

lemma ConnectResult_Encode_eq:
  assumes "0 \<le> MsgLen c" and "MsgLen c \<le> int (length (RawMsg c))"
  shows "ConnectResult_Encode c buf =
    Inr ((if Welcome c then 1 else 0) # word_of_int (MsgLen c AND 0xFF)
          # take (nat (MsgLen c)) (RawMsg c))"
  using assms by (simp add: ConnectResult_Encode_def slice_expr_00 array_slice_prefix Let_def)

lemma ConnectResult_roundtrip:
  assumes "ConnectResult_wf c" and "ConnectResult_wf c0"
    and "0 \<le> MsgLen c" and "MsgLen c \<le> 31"
  shows "\<exists>out. ConnectResult_Encode c buf = Inr out
     \<and> ConnectResult_Decode c0 \<lparr>elems = out, spare = sp\<rparr> =
         (c0\<lparr>Welcome := Welcome c, MsgLen := MsgLen c,
             RawMsg := take (nat (MsgLen c)) (RawMsg c) @ drop (nat (MsgLen c)) (RawMsg c0)\<rparr>,
          None)"
proof -
  let ?w = "(if Welcome c then 1 else 0) :: byte"
  let ?n = "word_of_int (MsgLen c AND 0xFF) :: byte"
  let ?out = "?w # ?n # take (nat (MsgLen c)) (RawMsg c)"
  let ?b = "\<lparr>elems = ?out, spare = sp\<rparr>"
  have wf: "length (RawMsg c) = 31"
    using assms(1) by (simp add: ConnectResult_wf_def)
  have e: "ConnectResult_Encode c buf = Inr ?out"
    using assms(3,4) wf by (simp add: ConnectResult_Encode_eq)
  have n: "uint ?n = MsgLen c"
    using assms(3,4) by (intro uint_byte_of_masked) simp_all
  then have un: "unat ?n = nat (MsgLen c)"
    by (simp add: unat_eq_nat_uint)
  have i1: "elems ?b ! 1 = ?n" and i0: "(0 < elems ?b ! 0) = Welcome c"
    by simp_all
  have l: "len ?b = 2 + MsgLen c"
    using assms(3,4) wf by (simp add: len_def)
  have l2: "2 \<le> len ?b"
    using l assms(3) by simp
  have u2: "uint (2 + elems ?b ! 1) \<le> len ?b"
    using assms(4) by (simp only: i1 uint_2_plus n l) simp
  have u31: "uint (elems ?b ! 1) \<le> 31"
    using assms(4) by (simp only: i1 n)
  have "ConnectResult_Decode c0 ?b =
    (c0\<lparr>Welcome := (0 < elems ?b ! 0), MsgLen := uint (elems ?b ! 1),
       RawMsg := take (unat (elems ?b ! 1)) (drop 2 (elems ?b))
                 @ drop (unat (elems ?b ! 1)) (RawMsg c0)\<rparr>, None)"
    by (rule ConnectResult_Decode_ok [OF assms(2) l2 u2 u31])
  also have "\<dots> = (c0\<lparr>Welcome := Welcome c, MsgLen := MsgLen c,
             RawMsg := take (nat (MsgLen c)) (RawMsg c) @ drop (nat (MsgLen c)) (RawMsg c0)\<rparr>,
          None)"
    by (simp only: i1 i0 n un) simp
  finally show ?thesis using e by blast
qed

section \<open>The claims\<close>

subsection \<open>Decoding a ConnectResult\<close>

text \<open>
  Claim C1: for every buffer, decoding a ConnectResult either returns \<open>ErrInvalidPacket\<close>
  or succeeds, and a declared length above the 31 bytes of \<open>RawMsg\<close> is answered with
  \<open>ErrInvalidPacket\<close>. The code does not do so: on the 34-byte buffer that declares 32
  message bytes and holds them, and on the 2-byte buffer that declares 255, it leaves
  \<open>Welcome\<close> and \<open>MsgLen\<close> assigned and panics at \<open>c.RawMsg[:c.MsgLen]\<close>. In the
  second buffer \<open>2+msgLen\<close> has wrapped to 1, so the test of the buffer's length passes
  although 257 bytes are declared and 2 are there.
\<close>

theorem ConnectResult_Decode_over_capacity:
  "ConnectResult_Decode ConnectResult_zero \<lparr>elems = 1 # 32 # replicate 32 0x41, spare = []\<rparr>
     = (\<lparr>Welcome = True, RawMsg = replicate 31 0, MsgLen = 32\<rparr>, Some RuntimePanic)
   \<and> ConnectResult_Decode ConnectResult_zero \<lparr>elems = [0, 255], spare = []\<rparr>
     = (\<lparr>Welcome = False, RawMsg = replicate 31 0, MsgLen = 255\<rparr>, Some RuntimePanic)"
  by (simp add: ConnectResult_Decode_def ConnectResult_zero_def len_def Let_def
      array_slice_def)

text \<open>
  Claim C9: whenever a buffer of at least 2 bytes has a first byte greater than 0 (2 or 255
  as well as 1) and decoding succeeds, the decoded \<open>Welcome\<close> is true.
\<close>

theorem ConnectResult_Decode_nonzero_accepted:
  assumes "2 \<le> len buf" and "0 < elems buf ! 0"
    and "ConnectResult_Decode c buf = (c', None)"
  shows "Welcome c'"
proof -
  have "Welcome (fst (ConnectResult_Decode c buf)) = (0 < elems buf ! 0)"
    using assms(1)
    by (simp add: ConnectResult_Decode_def Let_def split: option.splits)
  with assms(2,3) show ?thesis by simp
qed

theorem ConnectResult_Decode_nonzero_accepted_witness:
  "2 \<le> len \<lparr>elems = [255, 1, 0x41], spare = []\<rparr>
   \<and> 0 < elems \<lparr>elems = [255, 1, 0x41], spare = []\<rparr> ! 0
   \<and> ConnectResult_Decode ConnectResult_zero \<lparr>elems = [255, 1, 0x41], spare = []\<rparr>
       = (\<lparr>Welcome = True, RawMsg = 0x41 # replicate 30 0, MsgLen = 1\<rparr>, None)
   \<and> 2 \<le> len \<lparr>elems = [2, 0], spare = []\<rparr>
   \<and> 0 < elems \<lparr>elems = [2, 0], spare = []\<rparr> ! 0
   \<and> ConnectResult_Decode ConnectResult_zero \<lparr>elems = [2, 0], spare = []\<rparr>
       = (\<lparr>Welcome = True, RawMsg = replicate 31 0, MsgLen = 0\<rparr>, None)
   \<and> Welcome \<lparr>Welcome = True, RawMsg = 0x41 # replicate 30 0, MsgLen = 1\<rparr>
   \<and> Welcome \<lparr>Welcome = True, RawMsg = replicate 31 0, MsgLen = 0\<rparr>"
proof -
  let ?b1 = "\<lparr>elems = [255, 1, 0x41 :: byte], spare = []\<rparr>"
  let ?b2 = "\<lparr>elems = [2, 0 :: byte], spare = []\<rparr>"
  have l1: "2 \<le> len ?b1" and l2: "2 \<le> len ?b2"
    by (simp_all add: len_def)
  have p1: "0 < elems ?b1 ! 0" and p2: "0 < elems ?b2 ! 0"
    by simp_all
  have d1: "ConnectResult_Decode ConnectResult_zero ?b1
       = (\<lparr>Welcome = True, RawMsg = 0x41 # replicate 30 0, MsgLen = 1\<rparr>, None)"
    by (simp add: ConnectResult_Decode_def ConnectResult_zero_def len_def Let_def
        array_slice_def slice_expr_def cap_def copy_prefix_def)
  have d2: "ConnectResult_Decode ConnectResult_zero ?b2
       = (\<lparr>Welcome = True, RawMsg = replicate 31 0, MsgLen = 0\<rparr>, None)"
    by (simp add: ConnectResult_Decode_def ConnectResult_zero_def len_def Let_def
        array_slice_def slice_expr_def cap_def copy_prefix_def)
  show ?thesis
    using l1 p1 d1 l2 p2 d2
      ConnectResult_Decode_nonzero_accepted [OF l1 p1 d1]
      ConnectResult_Decode_nonzero_accepted [OF l2 p2 d2]
    by simp
qed

subsection \<open>Decoding a Connect\<close>

text \<open>
  Claim C2: for every buffer, decoding a Connect returns \<open>ErrInvalidPacket\<close> when the
  buffer has fewer than 4 bytes or the declared lengths plus 4 exceed its length, never
  goes out of bounds, and otherwise yields \<open>buf[4 : 4+idLen]\<close> and
  \<open>buf[4+idLen : 4+idLen+proofLen]\<close>. The code does not do so on every buffer: on the
  buffer of 65536 bytes that declares an identity of 65532 bytes and an empty proof, the
  test of the lengths passes (65532 + 0 + 4 is the buffer's length), \<open>4+msgLen\<close> wraps to
  0 and \<open>buf[4:0]\<close> panics. \<open>Connect_Decode_outcome\<close> above gives the outcome for
  every buffer: the panic is there exactly when the declared lengths plus 4 fit the buffer
  and reach 65536.
\<close>

theorem Connect_Decode_wraps_at_65536:
  "Connect_Decode \<lparr>ACLKey = [], Signature = []\<rparr>
      \<lparr>elems = 0xFF # 0xFC # 0 # 0 # replicate 65532 0x61, spare = []\<rparr>
   = (\<lparr>ACLKey = [], Signature = []\<rparr>, Some RuntimePanic)"
proof -
  let ?buf = "\<lparr>elems = 0xFF # 0xFC # 0 # 0 # replicate 65532 (0x61 :: byte), spare = []\<rparr>"
  have l: "len ?buf = 65536" by (simp add: len_def)
  then have l4: "4 \<le> len ?buf" by simp
  have d: "declared_lengths ?buf = (0xFFFC, 0)" by (simp add: declared_lengths_def)
  have w: "uint (4 + (0xFFFC :: 16 word)) = 0" by simp
  have r: "slice_expr ?buf 4 0 = None" by (rule slice_expr_reversed) simp
  show ?thesis
    by (subst Connect_Decode_header [OF l4 d]) (simp add: l w r)
qed

subsection \<open>The proof of a Connect\<close>

text \<open>
  Claim C3: for every challenge, key and identity, \<open>Connect.HMAC\<close> is HMAC-SHA-512,
  keyed with the key, of the bytes \<open>cha\<close>, the challenge, the bytes \<open>acl#\<close> and the
  bytes of the identity, in this order, and the digest it returns has 64 bytes.
\<close>

theorem Connect_HMAC_is_HMAC_SHA512:
  "Connect_HMAC c challenge psk =
     HMAC_SHA512 psk (str_bytes ''cha'' @ challenge @ str_bytes ''acl#'' @ ACLKey c)
   \<and> length (Connect_HMAC c challenge psk) = 64"
proof
  have "inner (hmac_Write (hmac_Write (hmac_Write (hmac_New psk) (str_bytes ''cha'')) challenge)
          (str_bytes ''acl#'' @ ACLKey c))
        = ipad (hmac_New psk) @ str_bytes ''cha'' @ challenge @ str_bytes ''acl#'' @ ACLKey c"
    by (simp add: hmac_Write_def hmac_New_def Let_def)
  then show "Connect_HMAC c challenge psk =
     HMAC_SHA512 psk (str_bytes ''cha'' @ challenge @ str_bytes ''acl#'' @ ACLKey c)"
    by (simp add: Connect_HMAC_def HMAC_SHA512_def hmac_Sum_def hmac_Write_def hmac_New_def
        Let_def)
  show "length (Connect_HMAC c challenge psk) = 64"
    by (rule length_Connect_HMAC)
qed

theorem Connect_HMAC_is_HMAC_SHA512_witness:
  "Connect_HMAC \<lparr>ACLKey = str_bytes ''svc-a'', Signature = []\<rparr>
      [0, 1, 2, 3, 4, 5, 6, 7, 8, 9, 10, 11, 12, 13, 14, 15] (str_bytes ''topsecret'')
   = HMAC_SHA512 (str_bytes ''topsecret'')
      (str_bytes ''cha'' @ [0, 1, 2, 3, 4, 5, 6, 7, 8, 9, 10, 11, 12, 13, 14, 15]
        @ str_bytes ''acl#'' @ str_bytes ''svc-a'')
   \<and> length (Connect_HMAC \<lparr>ACLKey = str_bytes ''svc-a'', Signature = []\<rparr>
      [0, 1, 2, 3, 4, 5, 6, 7, 8, 9, 10, 11, 12, 13, 14, 15] (str_bytes ''topsecret'')) = 64"
  using Connect_HMAC_is_HMAC_SHA512
    [of "\<lparr>ACLKey = str_bytes ''svc-a'', Signature = []\<rparr>"
        "[0, 1, 2, 3, 4, 5, 6, 7, 8, 9, 10, 11, 12, 13, 14, 15]" "str_bytes ''topsecret''"]
  unfolding Connect.select_convs .

text \<open>
  Claim C4: \<open>Verify\<close> is true exactly when the stored signature equals, byte for byte,
  what \<open>Connect.HMAC\<close> computes from the challenge and the key; so \<open>Verify\<close> after
  \<open>Sign\<close> with the same challenge and key is true.
\<close>

theorem Verify_iff_proof_equal:
  "Verify c challenge psk = (Signature c = Connect_HMAC c challenge psk)
   \<and> Verify (Sign c challenge psk) challenge psk"
proof
  show "Verify c challenge psk = (Signature c = Connect_HMAC c challenge psk)"
    by (simp add: Verify_def bytes_Compare_eq_0)
  have "Connect_HMAC (Sign c challenge psk) challenge psk = Connect_HMAC c challenge psk"
    by (simp add: Connect_HMAC_def Sign_def)
  moreover have "Signature (Sign c challenge psk) = Connect_HMAC c challenge psk"
    by (simp add: Sign_def)
  ultimately show "Verify (Sign c challenge psk) challenge psk"
    by (simp add: Verify_def bytes_Compare_eq_0)
qed

theorem Verify_iff_proof_equal_witness:
  "\<not> Verify \<lparr>ACLKey = str_bytes ''svc-a'', Signature = [1, 2, 3]\<rparr> [7, 7]
        (str_bytes ''topsecret'')
   \<and> Verify (Sign \<lparr>ACLKey = str_bytes ''svc-a'', Signature = [1, 2, 3]\<rparr> [7, 7]
                (str_bytes ''topsecret'')) [7, 7] (str_bytes ''topsecret'')"
proof -
  let ?c = "\<lparr>ACLKey = str_bytes ''svc-a'', Signature = [1, 2, 3]\<rparr>"
  have "length (Connect_HMAC ?c [7, 7] (str_bytes ''topsecret'')) = 64"
    by (rule length_Connect_HMAC)
  then have "Signature ?c \<noteq> Connect_HMAC ?c [7, 7] (str_bytes ''topsecret'')"
    by auto
  with Verify_iff_proof_equal [of ?c "[7, 7]" "str_bytes ''topsecret''"]
  show ?thesis by blast
qed

subsection \<open>Encoding a Connect\<close>

text \<open>
  Claim C5: \<open>Connect.Encode\<close> returns \<open>ErrContentTooLong\<close> exactly when the identity or
  the signature is longer than 65535 bytes, and returns the encoded bytes otherwise: an
  identity of 65536 bytes fails, one of 65535 bytes is encoded.
\<close>

theorem Connect_Encode_ContentTooLong:
  "(Connect_Encode c buf = Inl ErrContentTooLong)
     = (65535 < length (ACLKey c) \<or> 65535 < length (Signature c))
   \<and> (\<exists>out. Connect_Encode c buf = Inr out)
     = (length (ACLKey c) \<le> 65535 \<and> length (Signature c) \<le> 65535)"
  by (auto simp add: Connect_Encode_eq)

theorem Connect_Encode_ContentTooLong_witness:
  "Connect_Encode \<lparr>ACLKey = replicate 65536 0x61, Signature = []\<rparr> \<lparr>elems = [], spare = []\<rparr>
     = Inl ErrContentTooLong
   \<and> (\<exists>out. Connect_Encode \<lparr>ACLKey = replicate 65535 0x61, Signature = []\<rparr>
               \<lparr>elems = [], spare = []\<rparr> = Inr out)"
  using Connect_Encode_ContentTooLong
    [of "\<lparr>ACLKey = replicate 65536 0x61, Signature = []\<rparr>" "\<lparr>elems = [], spare = []\<rparr>"]
    Connect_Encode_ContentTooLong
    [of "\<lparr>ACLKey = replicate 65535 0x61, Signature = []\<rparr>" "\<lparr>elems = [], spare = []\<rparr>"]
  by simp

subsection \<open>Round trips\<close>

text \<open>
  Claim C6: decoding what \<open>Encode\<close> returns gives the message back, for every Hello, for
  every Connect whose identity and signature have at most 65535 bytes each, and for every
  ConnectResult with a recorded length of at most 31. For Hello and ConnectResult the code
  does so (\<open>Hello_roundtrip\<close>, \<open>ConnectResult_roundtrip\<close>), and for a Connect whose
  two lengths and 4 stay below 65536 (\<open>Connect_roundtrip\<close>). It does not for the
  Connect with an identity of 65532 bytes and an empty signature: \<open>Encode\<close> returns its
  65536 bytes and \<open>Decode\<close> of them panics at \<open>buf[4 : 4+msgLen]\<close>, where \<open>4+msgLen\<close>
  has wrapped to 0.
\<close>

theorem Connect_roundtrip_fails_at_65532:
  "Connect_Encode \<lparr>ACLKey = replicate 65532 0x61, Signature = []\<rparr> \<lparr>elems = [], spare = []\<rparr>
     = Inr (0xFF # 0xFC # 0 # 0 # replicate 65532 0x61)
   \<and> Connect_Decode \<lparr>ACLKey = [], Signature = []\<rparr>
        \<lparr>elems = 0xFF # 0xFC # 0 # 0 # replicate 65532 0x61, spare = []\<rparr>
     = (\<lparr>ACLKey = [], Signature = []\<rparr>, Some RuntimePanic)"
proof
  show "Connect_Encode \<lparr>ACLKey = replicate 65532 0x61, Signature = []\<rparr>
      \<lparr>elems = [], spare = []\<rparr> = Inr (0xFF # 0xFC # 0 # 0 # replicate 65532 0x61)"
    by (simp add: Connect_Encode_eq)
  let ?buf = "\<lparr>elems = 0xFF # 0xFC # 0 # 0 # replicate 65532 (0x61 :: byte), spare = []\<rparr>"
  have l: "len ?buf = 65536" by (simp add: len_def)
  then have l4: "4 \<le> len ?buf" by simp
  have d: "declared_lengths ?buf = (0xFFFC, 0)" by (simp add: declared_lengths_def)
  have w: "uint (4 + (0xFFFC :: 16 word)) = 0" by simp
  have r: "slice_expr ?buf 4 0 = None" by (rule slice_expr_reversed) simp
  show "Connect_Decode \<lparr>ACLKey = [], Signature = []\<rparr> ?buf
     = (\<lparr>ACLKey = [], Signature = []\<rparr>, Some RuntimePanic)"
    by (subst Connect_Decode_header [OF l4 d]) (simp add: l w r)
qed

subsection \<open>The message of a ConnectResult\<close>

text \<open>
  Claim C7: \<open>EncodeMessage\<close> returns \<open>ErrBufferTooShort\<close> exactly when the text has more
  than 31 bytes; otherwise it copies the text to the front of \<open>RawMsg\<close> and records its
  length in \<open>MsgLen\<close>. A text of 32 bytes fails, one of 31 bytes is stored.
\<close>

theorem EncodeMessage_BufferTooShort:
  assumes "ConnectResult_wf c"
  shows "EncodeMessage c msg =
     (if 31 < length msg then (c, Some ErrBufferTooShort)
      else (c\<lparr>RawMsg := msg @ drop (length msg) (RawMsg c), MsgLen := int (length msg)\<rparr>,
            None))"
  using assms by (simp add: EncodeMessage_eq ConnectResult_wf_def)

theorem EncodeMessage_BufferTooShort_witness:
  "ConnectResult_wf ConnectResult_zero
   \<and> EncodeMessage ConnectResult_zero (replicate 32 0x78) =
       (ConnectResult_zero, Some ErrBufferTooShort)
   \<and> EncodeMessage ConnectResult_zero (replicate 31 0x78) =
       (\<lparr>Welcome = False, RawMsg = replicate 31 0x78, MsgLen = 31\<rparr>, None)"
proof -
  have wf: "ConnectResult_wf ConnectResult_zero"
    by (simp add: ConnectResult_wf_def ConnectResult_zero_def)
  show ?thesis
    using wf EncodeMessage_BufferTooShort [OF wf, of "replicate 32 0x78"]
      EncodeMessage_BufferTooShort [OF wf, of "replicate 31 0x78"]
    by (simp add: ConnectResult_zero_def)
qed

text \<open>
  Claim C10: when \<open>EncodeMessage\<close> returns \<open>ErrBufferTooShort\<close>, \<open>RawMsg\<close> and
  \<open>MsgLen\<close> are what they were before the call.
\<close>

theorem EncodeMessage_error_unchanged:
  assumes "snd (EncodeMessage c msg) = Some ErrBufferTooShort"
  shows "RawMsg (fst (EncodeMessage c msg)) = RawMsg c
    \<and> MsgLen (fst (EncodeMessage c msg)) = MsgLen c"
  using assms by (simp add: EncodeMessage_eq split: if_splits)

theorem EncodeMessage_error_unchanged_witness:
  "snd (EncodeMessage \<lparr>Welcome = True, RawMsg = replicate 31 0x41, MsgLen = 5\<rparr>
          (replicate 32 0x78)) = Some ErrBufferTooShort
   \<and> RawMsg (fst (EncodeMessage \<lparr>Welcome = True, RawMsg = replicate 31 0x41, MsgLen = 5\<rparr>
          (replicate 32 0x78))) = replicate 31 0x41
   \<and> MsgLen (fst (EncodeMessage \<lparr>Welcome = True, RawMsg = replicate 31 0x41, MsgLen = 5\<rparr>
          (replicate 32 0x78))) = 5"
proof -
  let ?c = "\<lparr>Welcome = True, RawMsg = replicate 31 (0x41 :: byte), MsgLen = 5\<rparr>"
  have e: "snd (EncodeMessage ?c (replicate 32 0x78)) = Some ErrBufferTooShort"
    by (simp add: EncodeMessage_def)
  show ?thesis
    using e EncodeMessage_error_unchanged [OF e] by simp
qed

text \<open>
  Claim C8: \<open>DecodeMessage\<close> returns all 31 bytes of \<open>RawMsg\<close>, the zero bytes at its
  end and whatever stands behind the recorded length included; the recorded length has
  no part in the result.
\<close>

theorem DecodeMessage_whole_buffer:
  assumes "ConnectResult_wf c"
  shows "DecodeMessage c = Inr (RawMsg c) \<and> length (RawMsg c) = 31
    \<and> DecodeMessage (c\<lparr>MsgLen := n\<rparr>) = DecodeMessage c"
  using assms by (simp add: DecodeMessage_eq ConnectResult_wf_def)

theorem DecodeMessage_whole_buffer_witness:
  "ConnectResult_wf (fst (EncodeMessage ConnectResult_zero (str_bytes ''hi'')))
   \<and> MsgLen (fst (EncodeMessage ConnectResult_zero (str_bytes ''hi''))) = 2
   \<and> DecodeMessage (fst (EncodeMessage ConnectResult_zero (str_bytes ''hi'')))
       = Inr (str_bytes ''hi'' @ replicate 29 0)"
proof -
  let ?c = "fst (EncodeMessage ConnectResult_zero (str_bytes ''hi''))"
  have z: "ConnectResult_wf ConnectResult_zero"
    by (simp add: ConnectResult_wf_def ConnectResult_zero_def)
  then have wf: "ConnectResult_wf ?c"
    by (rule EncodeMessage_wf)
  have r: "RawMsg ?c = str_bytes ''hi'' @ replicate 29 0" and m: "MsgLen ?c = 2"
    by (simp_all add: EncodeMessage_eq ConnectResult_zero_def str_bytes_def)
  show ?thesis
    using wf m DecodeMessage_whole_buffer [OF wf, of 0] by (simp add: r)
qed

end
